theory Spec2Isabelle
  imports Main "HOL-Library.Sublist"
begin

section \<open>Data model of \<open>puzzle/app.py\<close>\<close>

text \<open>
  A grid cell is a Python \<open>str\<close>; rows are lists of cells and the grid is a list of
  rows (\<open>GRID_TYPE = List[List[str]]\<close>). The declared \<open>length\<close> (column count) and
  \<open>depth\<close> (row count) are Python integers that the class stores next to the rows.
  The memo fields \<open>_letters\<close> and \<open>_lines\<close> only cache values of an object that is
  never mutated afterwards, so the properties are modelled as functions of the grid.
\<close>

datatype error = IndexError | FileNotFoundError | PermissionError

record Grid =
  grid :: "string list list"
  length' :: int
  depth :: int

text \<open>Sequencing of a step that may raise with the rest of the computation.\<close>

definition rbind :: "error + 'a \<Rightarrow> ('a \<Rightarrow> error + 'b) \<Rightarrow> error + 'b" where
  "rbind m k = (case m of Inl e \<Rightarrow> Inl e | Inr v \<Rightarrow> k v)"

text \<open>
  Python list subscription \<open>xs[i]\<close>: a negative index counts from the end, and an index
  outside the list raises \<open>IndexError\<close>.
\<close>

definition subscript :: "'a list \<Rightarrow> int \<Rightarrow> error + 'a" where
  "subscript xs i =
     (if 0 \<le> i then (if i < int (length xs) then Inr (xs ! nat i) else Inl IndexError)
      else (if - int (length xs) \<le> i then Inr (xs ! nat (int (length xs) + i))
            else Inl IndexError))"

text \<open>\<open>self.grid[r][c]\<close>: two subscriptions, the row first.\<close>

definition cell :: "Grid \<Rightarrow> int \<Rightarrow> int \<Rightarrow> error + string" where
  "cell g r c = rbind (subscript (grid g) r) (\<lambda>row. subscript row c)"

text \<open>\<open>range(a, b)\<close>: the integers from \<open>a\<close> up to \<open>b - 1\<close>, none when \<open>b \<le> a\<close>.\<close>

definition py_range :: "int \<Rightarrow> int \<Rightarrow> int list" where
  "py_range a b = map (\<lambda>k. a + int k) [0..<nat (b - a)]"

text \<open>\<open>sep.join(parts)\<close>; with the empty separator it concatenates the parts.\<close>

fun join :: "string \<Rightarrow> string list \<Rightarrow> string" where
  "join sep [] = []"
| "join sep [p] = p"
| "join sep (p # q # ps) = p @ sep @ join sep (q # ps)"

subsection \<open>The word source\<close>

text \<open>
  What a path names in the file system: nothing, something that is not a plain file,
  a plain file that cannot be opened for reading, or a plain file with its lines as
  \<open>readlines()\<close> returns them.
\<close>

datatype entry = Missing | Not_File | Unreadable | Plain "string list"

type_synonym fs = "string \<Rightarrow> entry"

definition exists_path :: "entry \<Rightarrow> bool" where
  "exists_path p = (case p of Missing \<Rightarrow> False | _ \<Rightarrow> True)"

definition is_file :: "entry \<Rightarrow> bool" where
  "is_file p = (case p of Unreadable \<Rightarrow> True | Plain ls \<Rightarrow> True | _ \<Rightarrow> False)"

text \<open>
  A Python generator runs none of its body when it is created; it runs when the consumer
  asks for the next element. A generator is therefore modelled by what iterating it
  gives: elements, then a normal end or an exception. Creating the value has no effect,
  and an exception in it surfaces only where a loop consumes it.
\<close>

datatype 'a gen = Stop | Yield 'a "'a gen" | Raise error

text \<open>\<open>str.isspace\<close> on the characters below 256, and \<open>str.strip()\<close>.\<close>

definition isspace :: "char \<Rightarrow> bool" where
  "isspace c = ((of_char c :: nat) \<in> {9, 10, 11, 12, 13, 28, 29, 30, 31, 32, 133, 160})"

definition strip :: "string \<Rightarrow> string" where
  "strip s = rev (dropWhile isspace (rev (dropWhile isspace s)))"

fun yield_lines :: "string list \<Rightarrow> string gen" where
  "yield_lines [] = Stop"
| "yield_lines (line # rest) = Yield (strip line) (yield_lines rest)"

definition read_words :: "fs \<Rightarrow> string \<Rightarrow> string gen" where
  "read_words files path =
     (let p = files path in
      if \<not> (exists_path p \<and> is_file p) then Raise FileNotFoundError
      else (case p of Plain ls \<Rightarrow> yield_lines ls | _ \<Rightarrow> Raise PermissionError))"

fun filter_by_letters :: "string gen \<Rightarrow> string set \<Rightarrow> string gen" where
  "filter_by_letters Stop letters = Stop"
| "filter_by_letters (Raise e) letters = Raise e"
| "filter_by_letters (Yield word rest) letters =
     (case subscript word 0 of
        Inl e \<Rightarrow> Raise e
      | Inr c \<Rightarrow>
          (let first_letter = [c] in
           if first_letter \<in> letters then Yield word (filter_by_letters rest letters)
           else filter_by_letters rest letters))"

fun filter_by_length :: "string gen \<Rightarrow> int \<Rightarrow> string gen" where
  "filter_by_length Stop n = Stop"
| "filter_by_length (Raise e) n = Raise e"
| "filter_by_length (Yield word rest) n =
     (if int (length word) \<le> n then Yield word (filter_by_length rest n)
      else filter_by_length rest n)"

subsection \<open>Grid\<close>

text \<open>
  \<open>Grid.__init__\<close> stores its three arguments and raises nothing. Its result is given
  the type of a fallible constructor so that claims about construction failing can be
  stated against it.
\<close>

definition Grid_init :: "string list list \<Rightarrow> int \<Rightarrow> int \<Rightarrow> error + Grid" where
  "Grid_init rows l d = Inr \<lparr>grid = rows, length' = l, depth = d\<rparr>"

definition max_size :: "Grid \<Rightarrow> int" where
  "max_size g = max (length' g) (depth g)"

text \<open>\<open>letters\<close>: the set of all cells, \<open>{l for l in itertools.chain(*self.grid)}\<close>.\<close>

definition letters :: "Grid \<Rightarrow> string set" where
  "letters g = set (concat (grid g))"

subsection \<open>Horizontal and vertical lines\<close>

text \<open>The loop of \<open>horizontal_lines\<close> over the rows, with the list \<open>rows\<close> it appends to.\<close>

fun horizontal_loop :: "string list list \<Rightarrow> string list \<Rightarrow> string list" where
  "horizontal_loop [] rows = rows"
| "horizontal_loop (row # rest) rows =
     (let letters = join [] row
      in horizontal_loop rest (rows @ [letters, rev letters]))"

definition horizontal_lines :: "Grid \<Rightarrow> string list" where
  "horizontal_lines g = horizontal_loop (grid g) []"

text \<open>
  The list comprehension of \<open>vertical_lines\<close> reads one cell per row index and raises as
  soon as one subscription does.
\<close>

fun column_cells :: "Grid \<Rightarrow> int \<Rightarrow> int list \<Rightarrow> error + string list" where
  "column_cells g column_index [] = Inr []"
| "column_cells g column_index (row_index # rest) =
     rbind (cell g row_index column_index) (\<lambda>c.
     rbind (column_cells g column_index rest) (\<lambda>cs. Inr (c # cs)))"

fun vertical_loop :: "Grid \<Rightarrow> int list \<Rightarrow> string list \<Rightarrow> error + string list" where
  "vertical_loop g [] columns = Inr columns"
| "vertical_loop g (column_index # rest) columns =
     rbind (column_cells g column_index (py_range 0 (depth g))) (\<lambda>cs.
       let letters = join [] cs
       in vertical_loop g rest (columns @ [letters, rev letters]))"

definition vertical_lines :: "Grid \<Rightarrow> error + string list" where
  "vertical_lines g = vertical_loop g (py_range 0 (length' g)) []"

subsection \<open>Diagonal lines\<close>

text \<open>
  The inner loop of \<open>diagonal_lines\<close> over \<open>column_index\<close>, carrying the two lists
  \<open>left_letters\<close> and \<open>right_letters\<close>. At index 0 the same cell is read twice and the
  iteration ends (\<open>continue\<close>); otherwise each of the two appends is guarded.
\<close>

fun diagonal_walk ::
  "Grid \<Rightarrow> int \<Rightarrow> int list \<Rightarrow> string list \<times> string list \<Rightarrow> error + (string list \<times> string list)"
where
  "diagonal_walk g offset [] (left_letters, right_letters) = Inr (left_letters, right_letters)"
| "diagonal_walk g offset (column_index # rest) (left_letters, right_letters) =
     (let right_index = column_index + offset in
      if column_index = 0 then
        rbind (cell g column_index right_index) (\<lambda>c1.
        rbind (cell g column_index right_index) (\<lambda>c2.
          diagonal_walk g offset rest (left_letters @ [c1], right_letters @ [c2])))
      else
        rbind (if right_index < length' g
               then rbind (cell g column_index right_index) (\<lambda>c. Inr (right_letters @ [c]))
               else Inr right_letters) (\<lambda>right_letters.
        let left_index = right_index - 2 in
        rbind (if length' g > left_index \<and> left_index \<ge> 0
               then rbind (cell g column_index left_index) (\<lambda>c. Inr (left_letters @ [c]))
               else Inr left_letters) (\<lambda>left_letters.
          diagonal_walk g offset rest (left_letters, right_letters))))"

text \<open>
  The two \<open>if\<close> blocks after the inner loop: a non-empty joined string is added to the
  set together with its reversal.
\<close>

definition add_both :: "string \<Rightarrow> string set \<Rightarrow> string set" where
  "add_both s diagonals = (if s \<noteq> [] then insert (rev s) (insert s diagonals) else diagonals)"

text \<open>
  The outer loop runs once per element of \<open>range(0, self.length)\<close>; the loop variable is
  unused and \<open>offset\<close> is a counter the body increments.
\<close>

fun diagonal_loop :: "Grid \<Rightarrow> int list \<Rightarrow> string set \<times> int \<Rightarrow> error + string set" where
  "diagonal_loop g [] (diagonals, offset) = Inr diagonals"
| "diagonal_loop g (u # rest) (diagonals, offset) =
     rbind (diagonal_walk g offset (py_range 0 (depth g)) ([], [])) (\<lambda>(left_letters, right_letters).
       let diagonals = add_both (join [] right_letters) diagonals;
           diagonals = add_both (join [] left_letters) diagonals
       in diagonal_loop g rest (diagonals, offset + 1))"

definition diagonal_lines :: "Grid \<Rightarrow> error + string set" where
  "diagonal_lines g = diagonal_loop g (py_range 0 (length' g)) ({}, 0)"

text \<open>
  \<open>lines\<close> unpacks the vertical list, the horizontal list and the diagonal set into one
  list. Python iterates a set of strings in an order fixed by their hashes, which the
  program does not control; the order is the argument \<open>ds\<close>, and \<open>iterates D ds\<close> says
  that \<open>ds\<close> is an iteration of the set \<open>D\<close>: every member once.
\<close>

definition iterates :: "string set \<Rightarrow> string list \<Rightarrow> bool" where
  "iterates D ds = (distinct ds \<and> set ds = D)"

definition lines :: "Grid \<Rightarrow> string list \<Rightarrow> error + string list" where
  "lines g ds =
     rbind (vertical_lines g) (\<lambda>v.
     rbind (Inr (horizontal_lines g)) (\<lambda>h.
     rbind (diagonal_lines g) (\<lambda>D. Inr (v @ h @ ds))))"

text \<open>The shape invariant of the data model: \<open>depth\<close> rows of \<open>length\<close> cells each.\<close>

definition rectangular :: "Grid \<Rightarrow> bool" where
  "rectangular g =
     (int (length (grid g)) = depth g \<and> list_all (\<lambda>row. int (length row) = length' g) (grid g))"

text \<open>Every cell is a string of exactly one character.\<close>

definition single_chars :: "Grid \<Rightarrow> bool" where
  "single_chars g = list_all (list_all (\<lambda>c. length c = 1)) (grid g)"

subsection \<open>Finder\<close>

text \<open>Python's \<open>word in text\<close> on strings: \<open>word\<close> starts at some position of \<open>text\<close>.\<close>

fun str_in :: "string \<Rightarrow> string \<Rightarrow> bool" where
  "str_in word [] = (word = [])"
| "str_in word (c # text) = (prefix word (c # text) \<or> str_in word text)"

text \<open>The \<open>for word in words\<close> loop of \<open>find_words\<close>, which consumes the generator.\<close>

fun find_loop :: "string \<Rightarrow> string gen \<Rightarrow> string list \<Rightarrow> error + string list" where
  "find_loop all_possible_lines Stop exist_words = Inr exist_words"
| "find_loop all_possible_lines (Raise e) exist_words = Inl e"
| "find_loop all_possible_lines (Yield word rest) exist_words =
     (if str_in word all_possible_lines
      then find_loop all_possible_lines rest (exist_words @ [word])
      else find_loop all_possible_lines rest exist_words)"

definition find_words :: "fs \<Rightarrow> Grid \<Rightarrow> string list \<Rightarrow> string \<Rightarrow> error + string list" where
  "find_words files g ds file_path =
     (let words = read_words files file_path;
          words = filter_by_length words (max_size g);
          words = filter_by_letters words (letters g)
      in if max_size g < 1 then Inr []
         else rbind (lines g ds) (\<lambda>ls.
                let all_possible_lines = join ''|'' ls
                in find_loop all_possible_lines words []))"

subsection \<open>The diagonal algorithm in the words of the specification\<close>

text \<open>
  The specification describes, for one \<open>offset\<close>, a right and a left accumulator: both
  are seeded with the cell of row 0 at column \<open>offset\<close> (the seed is the step of the walk
  at row 0, so there is none when the grid has no row), and row \<open>i\<close> from 1 to
  \<open>depth - 1\<close> contributes the cell at column \<open>i + offset\<close> to the right one when that
  column is below the width, and the cell at column \<open>i + offset - 2\<close> to the left one
  when that column is between 0 and the width. Each non-empty accumulator string goes
  into the result with its reverse.
\<close>

definition at :: "Grid \<Rightarrow> int \<Rightarrow> int \<Rightarrow> string" where
  "at g i j = grid g ! nat i ! nat j"

definition spec_seed :: "Grid \<Rightarrow> int \<Rightarrow> string list" where
  "spec_seed g offset = (if 1 \<le> depth g then [at g 0 offset] else [])"

definition spec_right :: "Grid \<Rightarrow> int \<Rightarrow> string list" where
  "spec_right g offset =
     spec_seed g offset @
     map (\<lambda>i. at g i (i + offset))
         (filter (\<lambda>i. i + offset < length' g) (py_range 1 (depth g)))"

definition spec_left :: "Grid \<Rightarrow> int \<Rightarrow> string list" where
  "spec_left g offset =
     spec_seed g offset @
     map (\<lambda>i. at g i (i + offset - 2))
         (filter (\<lambda>i. 0 \<le> i + offset - 2 \<and> i + offset - 2 < length' g) (py_range 1 (depth g)))"

definition spec_both :: "string \<Rightarrow> string set" where
  "spec_both s = (if s = [] then {} else {s, rev s})"

definition spec_diagonal_lines :: "Grid \<Rightarrow> string set" where
  "spec_diagonal_lines g =
     (\<Union>offset \<in> set (py_range 0 (length' g)).
        spec_both (join [] (spec_right g offset)) \<union> spec_both (join [] (spec_left g offset)))"

text \<open>
  The words of a source that occur in some line, in the order of the source:
  \<open>sublist w l\<close> says that \<open>w\<close> is a contiguous part of \<open>l\<close>.
\<close>

definition occurring :: "string list \<Rightarrow> string list \<Rightarrow> string list" where
  "occurring ls ws = filter (\<lambda>w. list_ex (sublist w) ls) ws"

section \<open>Auxiliary definitions for the proofs\<close>

text \<open>
  What one row index contributes to each accumulator of the diagonal walk, the string of
  one column, and the strings one offset adds to the result.
\<close>

definition right_step :: "Grid \<Rightarrow> int \<Rightarrow> int \<Rightarrow> string list" where
  "right_step g offset i =
     (if i = 0 then [at g 0 offset]
      else if i + offset < length' g then [at g i (i + offset)] else [])"

definition left_step :: "Grid \<Rightarrow> int \<Rightarrow> int \<Rightarrow> string list" where
  "left_step g offset i =
     (if i = 0 then [at g 0 offset]
      else if 0 \<le> i + offset - 2 \<and> i + offset - 2 < length' g then [at g i (i + offset - 2)]
      else [])"

definition column_string :: "Grid \<Rightarrow> int \<Rightarrow> string" where
  "column_string g c = join [] (map (\<lambda>r. at g r c) (py_range 0 (depth g)))"

definition spec_offset :: "Grid \<Rightarrow> int \<Rightarrow> string set" where
  "spec_offset g offset =
     spec_both (join [] (spec_right g offset)) \<union> spec_both (join [] (spec_left g offset))"

text \<open>
  A list of cells of the grid, each one character long; and a line that is no longer than
  \<open>max_size\<close> and consists of characters that are cells of the grid.
\<close>

definition unit_cells :: "Grid \<Rightarrow> string list \<Rightarrow> bool" where
  "unit_cells g ss = list_all (\<lambda>s. s \<in> letters g \<and> length s = 1) ss"

definition fits :: "Grid \<Rightarrow> string \<Rightarrow> bool" where
  "fits g l = (int (length l) \<le> max_size g \<and> list_all (\<lambda>c. [c] \<in> letters g) l)"

text \<open>The generator that yields the elements of a list and ends.\<close>

fun gen_of :: "'a list \<Rightarrow> 'a gen" where
  "gen_of [] = Stop"
| "gen_of (x # xs) = Yield x (gen_of xs)"

subsection \<open>Concrete inputs\<close>

definition G22 :: Grid where
  "G22 = \<lparr>grid = [[''a'', ''b''], [''c'', ''d'']], length' = 2, depth = 2\<rparr>"

definition Gcat :: Grid where
  "Gcat = \<lparr>grid = [[''c'', ''a'', ''t'']], length' = 3, depth = 1\<rparr>"

definition empty_grid :: Grid where
  "empty_grid = \<lparr>grid = [], length' = 0, depth = 0\<rparr>"

definition ragged_grid :: Grid where
  "ragged_grid = \<lparr>grid = [[''a'']], length' = 2, depth = 1\<rparr>"

definition wide_grid :: Grid where
  "wide_grid = \<lparr>grid = [[''ab'']], length' = 1, depth = 1\<rparr>"

text \<open>
  File systems: one with no entry at all; one where \<open>words.txt\<close> holds three lines; one
  where it holds a single word with the separator in it; one where its second line is
  blank; one where it holds the word \<open>ab\<close>; one where it is a directory.
\<close>

definition no_files :: fs where
  "no_files path = Missing"

definition words_file :: fs where
  "words_file path =
     (if path = ''words.txt'' then Plain [''cat'' @ [CHR 0x0A], ''dog'' @ [CHR 0x0A], '' at'']
      else Missing)"

definition pipe_file :: fs where
  "pipe_file path = (if path = ''words.txt'' then Plain [''a|a''] else Missing)"

definition blank_line_file :: fs where
  "blank_line_file path =
     (if path = ''words.txt'' then Plain [''cat'' @ [CHR 0x0A], [CHR 0x0A]] else Missing)"

definition wide_file :: fs where
  "wide_file path = (if path = ''words.txt'' then Plain [''ab''] else Missing)"

definition directory_only :: fs where
  "directory_only path = (if path = ''words.txt'' then Not_File else Missing)"

section \<open>Properties of the loops on a rectangular grid\<close>

lemma rbind_Inr [simp]: "rbind (Inr v) k = k v"
  by (simp add: rbind_def)

lemma rbind_Inl [simp]: "rbind (Inl e) k = Inl e"
  by (simp add: rbind_def)

lemma subscript_in_range: "0 \<le> i \<Longrightarrow> i < int (length xs) \<Longrightarrow> subscript xs i = Inr (xs ! nat i)"
  by (simp add: subscript_def)

lemma rectangular_row:
  "rectangular g \<Longrightarrow> 0 \<le> r \<Longrightarrow> r < depth g \<Longrightarrow> int (length (grid g ! nat r)) = length' g"
  by (auto simp: rectangular_def list_all_length)

lemma cell_in_range:
  assumes "rectangular g" "0 \<le> r" "r < depth g" "0 \<le> c" "c < length' g"
  shows "cell g r c = Inr (at g r c)"
proof -
  have "r < int (length (grid g))" using assms by (simp add: rectangular_def)
  then have "subscript (grid g) r = Inr (grid g ! nat r)"
    using assms(2) by (rule subscript_in_range[rotated])
  moreover have "subscript (grid g ! nat r) c = Inr (grid g ! nat r ! nat c)"
    using assms rectangular_row[of g r] by (intro subscript_in_range) auto
  ultimately show ?thesis by (simp add: cell_def at_def)
qed

lemma set_py_range [simp]: "set (py_range a b) = {a..<b}"
proof -
  have "set (py_range a b) = (\<lambda>k. a + int k) ` {0..<nat (b - a)}"
    by (simp add: py_range_def)
  also have "\<dots> = {a..<b}"
  proof (intro equalityI subsetI)
    fix x assume "x \<in> {a..<b}"
    then have "x = a + int (nat (x - a))" "nat (x - a) \<in> {0..<nat (b - a)}" by auto
    then show "x \<in> (\<lambda>k. a + int k) ` {0..<nat (b - a)}" by blast
  qed auto
  finally show ?thesis .
qed

lemma length_py_range [simp]: "length (py_range a b) = nat (b - a)"
  by (simp add: py_range_def)

lemma py_range_empty [simp]: "b \<le> a \<Longrightarrow> py_range a b = []"
  by (simp add: py_range_def)

lemma py_range_Cons: "a < b \<Longrightarrow> py_range a b = a # py_range (a + 1) b"
proof -
  assume "a < b"
  then have n: "nat (b - a) = Suc (nat (b - (a + 1)))" by arith
  have "[0..<Suc (nat (b - (a + 1)))] = 0 # map Suc [0..<nat (b - (a + 1))]"
    by (simp add: upt_conv_Cons map_Suc_upt del: upt_Suc)
  then show ?thesis
    unfolding py_range_def n by (simp add: comp_def add.assoc del: upt_Suc)
qed

lemma join_empty_sep [simp]: "join [] ps = concat ps"
  by (induction "[] :: string" ps rule: join.induct) simp_all

lemma column_cells_rect:
  assumes "rectangular g" "0 \<le> c" "c < length' g" "\<forall>r\<in>set rs. 0 \<le> r \<and> r < depth g"
  shows "column_cells g c rs = Inr (map (\<lambda>r. at g r c) rs)"
  using assms(4)
proof (induction rs)
  case Nil
  show ?case by simp
next
  case (Cons r rs)
  then have "cell g r c = Inr (at g r c)"
    using assms(1-3) by (simp add: cell_in_range)
  with Cons show ?case by simp
qed

lemma vertical_loop_rect:
  assumes "rectangular g" "\<forall>c\<in>set cs. 0 \<le> c \<and> c < length' g"
  shows "vertical_loop g cs acc =
         Inr (acc @ concat (map (\<lambda>c. [column_string g c, rev (column_string g c)]) cs))"
  using assms(2)
proof (induction cs arbitrary: acc)
  case Nil
  show ?case by simp
next
  case (Cons c cs)
  have "column_cells g c (py_range 0 (depth g)) = Inr (map (\<lambda>r. at g r c) (py_range 0 (depth g)))"
    using assms(1) Cons.prems by (intro column_cells_rect) auto
  with Cons show ?case by (simp add: column_string_def Let_def)
qed

lemma vertical_lines_rect:
  "rectangular g \<Longrightarrow>
   vertical_lines g =
   Inr (concat (map (\<lambda>c. [column_string g c, rev (column_string g c)]) (py_range 0 (length' g))))"
  unfolding vertical_lines_def by (subst vertical_loop_rect) auto

lemma diagonal_walk_rect:
  assumes "rectangular g" "0 \<le> offset" "offset < length' g"
    and "\<forall>i\<in>set is. 0 \<le> i \<and> i < depth g"
  shows "diagonal_walk g offset is (l, r) =
         Inr (l @ concat (map (left_step g offset) is), r @ concat (map (right_step g offset) is))"
  using assms(4)
proof (induction "is" arbitrary: l r)
  case Nil
  show ?case by simp
next
  case (Cons i "is")
  have i: "0 \<le> i" "i < depth g" using Cons.prems by auto
  have IH: "\<And>l r. diagonal_walk g offset is (l, r) =
         Inr (l @ concat (map (left_step g offset) is), r @ concat (map (right_step g offset) is))"
    using Cons by simp
  show ?case
  proof (cases "i = 0")
    case True
    have "cell g 0 offset = Inr (at g 0 offset)"
      using assms(1-3) i True by (intro cell_in_range) auto
    moreover have "left_step g offset i = [at g 0 offset]" "right_step g offset i = [at g 0 offset]"
      using True by (simp_all add: left_step_def right_step_def)
    ultimately show ?thesis using True by (simp add: IH Let_def)
  next
    case False
    have R: "i + offset < length' g \<Longrightarrow> cell g i (i + offset) = Inr (at g i (i + offset))"
      using assms(1,2) i by (intro cell_in_range) auto
    have L: "0 \<le> i + offset - 2 \<Longrightarrow> i + offset - 2 < length' g \<Longrightarrow>
             cell g i (i + offset - 2) = Inr (at g i (i + offset - 2))"
      using assms(1) i by (intro cell_in_range) auto
    have "left_step g offset i =
            (if 0 \<le> i + offset - 2 \<and> i + offset - 2 < length' g
             then [at g i (i + offset - 2)] else [])"
         "right_step g offset i = (if i + offset < length' g then [at g i (i + offset)] else [])"
      using False by (simp_all add: left_step_def right_step_def)
    then show ?thesis using False R L
      by (simp add: IH Let_def)
  qed
qed

lemma right_steps_tail:
  "0 \<notin> set is \<Longrightarrow>
   concat (map (right_step g offset) is) =
   map (\<lambda>i. at g i (i + offset)) (filter (\<lambda>i. i + offset < length' g) is)"
  by (induction "is") (auto simp: right_step_def)

lemma left_steps_tail:
  "0 \<notin> set is \<Longrightarrow>
   concat (map (left_step g offset) is) =
   map (\<lambda>i. at g i (i + offset - 2))
       (filter (\<lambda>i. 0 \<le> i + offset - 2 \<and> i + offset - 2 < length' g) is)"
  by (induction "is") (auto simp: left_step_def)

lemma right_steps_spec:
  "concat (map (right_step g offset) (py_range 0 (depth g))) = spec_right g offset"
proof (cases "1 \<le> depth g")
  case True
  then have "py_range 0 (depth g) = 0 # py_range 1 (depth g)"
    using py_range_Cons[of 0 "depth g"] by simp
  then show ?thesis using True
    by (simp add: right_steps_tail spec_right_def spec_seed_def right_step_def)
next
  case False
  then show ?thesis by (simp add: spec_right_def spec_seed_def)
qed

lemma left_steps_spec:
  "concat (map (left_step g offset) (py_range 0 (depth g))) = spec_left g offset"
proof (cases "1 \<le> depth g")
  case True
  then have "py_range 0 (depth g) = 0 # py_range 1 (depth g)"
    using py_range_Cons[of 0 "depth g"] by simp
  then show ?thesis using True
    by (simp add: left_steps_tail spec_left_def spec_seed_def left_step_def)
next
  case False
  then show ?thesis by (simp add: spec_left_def spec_seed_def)
qed

lemma diagonal_walk_spec:
  assumes "rectangular g" "0 \<le> offset" "offset < length' g"
  shows "diagonal_walk g offset (py_range 0 (depth g)) ([], []) =
         Inr (spec_left g offset, spec_right g offset)"
  using diagonal_walk_rect[OF assms, of "py_range 0 (depth g)" "[]" "[]"]
  by (simp add: left_steps_spec right_steps_spec)

lemma add_both_spec: "add_both s D = spec_both s \<union> D"
  by (auto simp: add_both_def spec_both_def)

lemma diagonal_loop_rect:
  assumes "rectangular g"
  shows "0 \<le> offset \<Longrightarrow> offset + int (length us) \<le> length' g \<Longrightarrow>
         diagonal_loop g us (D, offset) =
         Inr (D \<union> (\<Union>k \<in> set (py_range offset (offset + int (length us))). spec_offset g k))"
proof (induction us arbitrary: D offset)
  case Nil
  show ?case by simp
next
  case (Cons u us)
  have walk: "diagonal_walk g offset (py_range 0 (depth g)) ([], []) =
              Inr (spec_left g offset, spec_right g offset)"
    using assms Cons.prems by (intro diagonal_walk_spec) auto
  have rng: "{offset..<offset + int (length (u # us))} =
             insert offset {offset + 1..<offset + 1 + int (length us)}"
    by auto
  let ?D' = "add_both (join [] (spec_left g offset)) (add_both (join [] (spec_right g offset)) D)"
  have "diagonal_loop g (u # us) (D, offset) = diagonal_loop g us (?D', offset + 1)"
    unfolding diagonal_loop.simps walk by (simp add: Let_def del: join_empty_sep)
  also have "\<dots> = Inr (?D' \<union>
        (\<Union>k \<in> set (py_range (offset + 1) (offset + 1 + int (length us))). spec_offset g k))"
    using Cons.prems by (intro Cons.IH) auto
  also have "?D' \<union> (\<Union>k \<in> set (py_range (offset + 1) (offset + 1 + int (length us))). spec_offset g k)
      = D \<union> (\<Union>k \<in> set (py_range offset (offset + int (length (u # us)))). spec_offset g k)"
    unfolding set_py_range rng add_both_spec spec_offset_def by blast
  finally show ?case .
qed

lemma diagonal_lines_rect: "rectangular g \<Longrightarrow> diagonal_lines g = Inr (spec_diagonal_lines g)"
proof (cases "0 \<le> length' g")
  case True
  assume "rectangular g"
  then show ?thesis
    unfolding diagonal_lines_def using True
    by (subst diagonal_loop_rect) (auto simp: spec_diagonal_lines_def spec_offset_def)
next
  case False
  then show ?thesis
    by (simp add: diagonal_lines_def spec_diagonal_lines_def)
qed

lemma horizontal_loop_eq:
  "horizontal_loop rows acc = acc @ concat (map (\<lambda>row. [concat row, rev (concat row)]) rows)"
  by (induction rows arbitrary: acc) (simp_all add: Let_def)

lemma horizontal_lines_eq:
  "horizontal_lines g = concat (map (\<lambda>row. [concat row, rev (concat row)]) (grid g))"
  by (simp add: horizontal_lines_def horizontal_loop_eq)

lemma nth_pairs:
  "i < length xs \<Longrightarrow>
   concat (map (\<lambda>x. [f x, h x]) xs) ! (2 * i) = f (xs ! i) \<and>
   concat (map (\<lambda>x. [f x, h x]) xs) ! (2 * i + 1) = h (xs ! i)"
proof (induction xs arbitrary: i)
  case Nil
  then show ?case by simp
next
  case (Cons x xs)
  show ?case
  proof (cases i)
    case 0
    then show ?thesis by simp
  next
    case (Suc j)
    then have "j < length xs" using Cons.prems by simp
    from Cons.IH[OF this] show ?thesis using Suc by simp
  qed
qed

lemma length_pairs: "length (concat (map (\<lambda>x. [f x, h x]) xs)) = 2 * length xs"
  by (induction xs) simp_all

lemma spec_both_rev: "s \<in> spec_both t \<Longrightarrow> rev s \<in> spec_both t"
  by (auto simp: spec_both_def split: if_splits)

lemma finite_spec_both: "finite (spec_both t)"
  by (simp add: spec_both_def)

lemma spec_diagonal_lines_rev: "s \<in> spec_diagonal_lines g \<Longrightarrow> rev s \<in> spec_diagonal_lines g"
  unfolding spec_diagonal_lines_def by (blast intro: spec_both_rev)

lemma finite_spec_diagonal_lines: "finite (spec_diagonal_lines g)"
  unfolding spec_diagonal_lines_def by (simp add: finite_spec_both del: join_empty_sep)

lemma lines_rect:
  "rectangular g \<Longrightarrow>
   lines g ds =
   Inr (concat (map (\<lambda>c. [column_string g c, rev (column_string g c)]) (py_range 0 (length' g)))
        @ horizontal_lines g @ ds)"
  by (simp add: lines_def vertical_lines_rect diagonal_lines_rect)

lemma read_words_unavailable:
  "\<forall>ls. files p \<noteq> Plain ls \<Longrightarrow>
   read_words files p = Raise (if files p = Unreadable then PermissionError else FileNotFoundError)"
  by (cases "files p") (simp_all add: read_words_def exists_path_def is_file_def)

section \<open>Line lengths and line characters\<close>

lemma unit_cells_Nil [simp]: "unit_cells g []"
  by (simp add: unit_cells_def)

lemma unit_cells_append [simp]: "unit_cells g (xs @ ys) \<longleftrightarrow> unit_cells g xs \<and> unit_cells g ys"
  by (simp add: unit_cells_def)

lemma unit_cells_concat: "(\<forall>x\<in>set xs. unit_cells g (f x)) \<Longrightarrow> unit_cells g (concat (map f xs))"
  by (induction xs) simp_all

lemma length_concat_le:
  "(\<forall>x\<in>set xs. length (f x) \<le> 1) \<Longrightarrow> length (concat (map f xs)) \<le> length xs"
proof (induction xs)
  case Nil
  show ?case by simp
next
  case (Cons x xs)
  then have "length (f x) \<le> 1" "length (concat (map f xs)) \<le> length xs" by simp_all
  then show ?case by simp
qed

lemma unit_cells_chars:
  "unit_cells g ss \<Longrightarrow> length (concat ss) = length ss \<and> list_all (\<lambda>c. [c] \<in> letters g) (concat ss)"
proof (induction ss)
  case Nil
  show ?case by simp
next
  case (Cons s ss)
  then obtain x where "s = [x]" "[x] \<in> letters g"
    by (cases s) (auto simp: unit_cells_def)
  with Cons show ?case by (simp add: unit_cells_def)
qed

lemma fits_concat:
  "unit_cells g ss \<Longrightarrow> int (length ss) \<le> max_size g \<Longrightarrow> fits g (concat ss)"
  using unit_cells_chars[of g ss] by (simp add: fits_def)

lemma fits_rev: "fits g l \<Longrightarrow> fits g (rev l)"
  by (simp add: fits_def list_all_iff)

lemma fits_spec_both: "fits g t \<Longrightarrow> s \<in> spec_both t \<Longrightarrow> fits g s"
  by (auto simp: spec_both_def fits_rev split: if_splits)

lemma row_in_grid: "rectangular g \<Longrightarrow> 0 \<le> r \<Longrightarrow> r < depth g \<Longrightarrow> grid g ! nat r \<in> set (grid g)"
proof -
  assume "rectangular g" "0 \<le> r" "r < depth g"
  then have "nat r < length (grid g)" unfolding rectangular_def by linarith
  then show ?thesis by (rule nth_mem)
qed

lemma at_unit:
  assumes "rectangular g" "single_chars g" "0 \<le> r" "r < depth g" "0 \<le> c" "c < length' g"
  shows "at g r c \<in> letters g \<and> length (at g r c) = 1"
proof -
  have row: "grid g ! nat r \<in> set (grid g)" using assms by (simp add: row_in_grid)
  have "nat c < length (grid g ! nat r)"
    using rectangular_row[OF assms(1,3,4)] assms(5,6) by simp
  then have "at g r c \<in> set (grid g ! nat r)" by (simp add: at_def)
  with row assms(2) show ?thesis
    by (auto simp: letters_def single_chars_def list_all_iff)
qed

lemma depth_nonneg: "rectangular g \<Longrightarrow> 0 \<le> depth g"
  by (auto simp: rectangular_def)

lemma row_fits:
  assumes "rectangular g" "single_chars g" "row \<in> set (grid g)"
  shows "fits g (concat row)"
proof -
  have "unit_cells g row"
    using assms by (auto simp: unit_cells_def letters_def single_chars_def list_all_iff)
  moreover have "int (length row) \<le> max_size g"
    using assms by (auto simp: rectangular_def list_all_iff max_size_def)
  ultimately show ?thesis by (rule fits_concat)
qed

lemma column_fits:
  assumes "rectangular g" "single_chars g" "0 \<le> c" "c < length' g"
  shows "fits g (column_string g c)"
proof -
  have "unit_cells g (map (\<lambda>r. at g r c) (py_range 0 (depth g)))"
    using at_unit[OF assms(1,2) _ _ assms(3,4)] by (simp add: unit_cells_def list_all_iff)
  moreover have "int (length (map (\<lambda>r. at g r c) (py_range 0 (depth g)))) \<le> max_size g"
    using depth_nonneg[OF assms(1)] by (simp add: max_size_def)
  ultimately show ?thesis
    unfolding column_string_def join_empty_sep by (rule fits_concat)
qed

lemma right_step_unit:
  assumes "rectangular g" "single_chars g" "0 \<le> offset" "offset < length' g" "0 \<le> i" "i < depth g"
  shows "unit_cells g (right_step g offset i) \<and> length (right_step g offset i) \<le> 1"
  using at_unit[OF assms(1,2), of 0 offset] at_unit[OF assms(1,2), of i "i + offset"] assms(3-6)
  by (simp add: right_step_def unit_cells_def)

lemma left_step_unit:
  assumes "rectangular g" "single_chars g" "0 \<le> offset" "offset < length' g" "0 \<le> i" "i < depth g"
  shows "unit_cells g (left_step g offset i) \<and> length (left_step g offset i) \<le> 1"
  using at_unit[OF assms(1,2), of 0 offset] at_unit[OF assms(1,2), of i "i + offset - 2"] assms(3-6)
  by (simp add: left_step_def unit_cells_def)

lemma diagonal_fits:
  assumes "rectangular g" "single_chars g" "0 \<le> offset" "offset < length' g"
  shows "fits g (join [] (spec_right g offset))" "fits g (join [] (spec_left g offset))"
proof -
  have d: "int n \<le> max_size g" if "n \<le> length (py_range 0 (depth g))" for n
    using that depth_nonneg[OF assms(1)] unfolding max_size_def length_py_range by linarith
  have "unit_cells g (spec_right g offset)"
    unfolding right_steps_spec[symmetric]
    using right_step_unit[OF assms] by (intro unit_cells_concat) simp
  moreover have "length (spec_right g offset) \<le> length (py_range 0 (depth g))"
    unfolding right_steps_spec[symmetric]
    using right_step_unit[OF assms] by (intro length_concat_le) simp
  ultimately show "fits g (join [] (spec_right g offset))"
    unfolding join_empty_sep by (intro fits_concat d)
  have "unit_cells g (spec_left g offset)"
    unfolding left_steps_spec[symmetric]
    using left_step_unit[OF assms] by (intro unit_cells_concat) simp
  moreover have "length (spec_left g offset) \<le> length (py_range 0 (depth g))"
    unfolding left_steps_spec[symmetric]
    using left_step_unit[OF assms] by (intro length_concat_le) simp
  ultimately show "fits g (join [] (spec_left g offset))"
    unfolding join_empty_sep by (intro fits_concat d)
qed

lemma horizontal_fit:
  "rectangular g \<Longrightarrow> single_chars g \<Longrightarrow> l \<in> set (horizontal_lines g) \<Longrightarrow> fits g l"
  by (auto simp: horizontal_lines_eq row_fits fits_rev)

lemma vertical_fit:
  "rectangular g \<Longrightarrow> single_chars g \<Longrightarrow> vertical_lines g = Inr V \<Longrightarrow> l \<in> set V \<Longrightarrow> fits g l"
  by (auto simp: vertical_lines_rect column_fits fits_rev)

lemma spec_diagonal_fit:
  assumes "rectangular g" "single_chars g" "l \<in> spec_diagonal_lines g"
  shows "fits g l"
proof -
  from assms(3) obtain offset where o: "0 \<le> offset" "offset < length' g"
    and l: "l \<in> spec_both (join [] (spec_right g offset)) \<or>
            l \<in> spec_both (join [] (spec_left g offset))"
    unfolding spec_diagonal_lines_def set_py_range by auto
  from l diagonal_fits[OF assms(1,2) o] show ?thesis
    by (blast intro: fits_spec_both)
qed

lemma lines_fit:
  assumes "rectangular g" "single_chars g" "diagonal_lines g = Inr D" "iterates D ds"
    "lines g ds = Inr L" "l \<in> set L"
  shows "fits g l"
proof -
  have D: "D = spec_diagonal_lines g" using assms(1,3) by (simp add: diagonal_lines_rect)
  obtain V where V: "vertical_lines g = Inr V" "L = V @ horizontal_lines g @ ds"
    using assms(1,5) by (auto simp: lines_def vertical_lines_rect diagonal_lines_rect)
  from assms(6) V(2) consider "l \<in> set V" | "l \<in> set (horizontal_lines g)" | "l \<in> set ds"
    by auto
  then show ?thesis
  proof cases
    case 1 then show ?thesis using assms(1,2) V(1) by (rule vertical_fit[rotated 3])
  next
    case 2 then show ?thesis using assms(1,2) by (rule horizontal_fit[rotated 2])
  next
    case 3 then show ?thesis using assms(1,2,4) D by (auto simp: iterates_def intro: spec_diagonal_fit)
  qed
qed

lemma sublist_fits:
  assumes "fits g l" "sublist w l"
  shows "int (length w) \<le> max_size g" "w \<noteq> [] \<Longrightarrow> [hd w] \<in> letters g"
proof -
  from assms(2) obtain ps ss where l: "l = ps @ w @ ss" by (auto simp: sublist_def)
  with assms(1) show "int (length w) \<le> max_size g" by (simp add: fits_def)
  assume "w \<noteq> []"
  then have "hd w \<in> set l" using l by simp
  with assms(1) show "[hd w] \<in> letters g" by (simp add: fits_def list_all_iff)
qed

section \<open>Substrings of the joined corpus and the filter pipeline\<close>

lemma str_in_sublist: "str_in w s = sublist w s"
  by (induction s) (simp_all add: sublist_Cons_right)

lemma sublist_sep:
  assumes "c \<notin> set w"
  shows "sublist w (p @ c # rest) \<longleftrightarrow> sublist w p \<or> sublist w rest"
proof -
  have "sublist w p" if "w = xs1 @ xs2" "suffix xs1 p" "prefix xs2 (c # rest)" for xs1 xs2
  proof -
    have "xs2 = []" using that(1,3) assms by (cases xs2) auto
    then show ?thesis using that(1,2) by (auto simp: suffix_def)
  qed
  moreover have "sublist w rest" if "prefix w (c # rest)"
    using that assms by (cases w) auto
  ultimately show ?thesis
    by (auto simp: sublist_append sublist_Cons_right)
qed

lemma sublist_join:
  assumes "c \<notin> set w" "w \<noteq> []"
  shows "sublist w (join [c] L) \<longleftrightarrow> (\<exists>l\<in>set L. sublist w l)"
proof (induction "[c]" L rule: join.induct)
  case 1
  show ?case using assms(2) by simp
next
  case (2 p)
  show ?case by simp
next
  case (3 p q ps)
  then show ?case using sublist_sep[OF assms(1)] by simp
qed

lemma yield_lines_gen: "yield_lines ls = gen_of (map strip ls)"
  by (induction ls) simp_all

lemma filter_by_length_gen:
  "filter_by_length (gen_of ws) n = gen_of (filter (\<lambda>w. int (length w) \<le> n) ws)"
  by (induction ws) simp_all

lemma filter_by_letters_gen:
  "\<forall>w\<in>set ws. w \<noteq> [] \<Longrightarrow>
   filter_by_letters (gen_of ws) Ls = gen_of (filter (\<lambda>w. [hd w] \<in> Ls) ws)"
proof (induction ws)
  case Nil
  show ?case by simp
next
  case (Cons w ws)
  then obtain x xs where "w = x # xs" by (cases w) auto
  with Cons show ?case by (simp add: subscript_def)
qed

lemma find_loop_gen:
  "find_loop corpus (gen_of ws) acc = Inr (acc @ filter (\<lambda>w. str_in w corpus) ws)"
  by (induction ws arbitrary: acc) simp_all

lemma no_lines_when_empty:
  assumes "rectangular g" "max_size g < 1" "diagonal_lines g = Inr D" "iterates D ds"
  shows "lines g ds = Inr []"
proof -
  have d: "depth g = 0" "length' g \<le> 0"
    using assms(1,2) by (auto simp: rectangular_def max_size_def)
  then have "grid g = []" using assms(1) by (simp add: rectangular_def)
  moreover have "D = {}" using assms(1,3) d by (simp add: diagonal_lines_rect spec_diagonal_lines_def)
  then have "ds = []" using assms(4) by (simp add: iterates_def)
  ultimately show ?thesis using d assms(1)
    by (simp add: lines_rect horizontal_lines_def)
qed

section \<open>Construction\<close>

text \<open>
  C3 (as the code has it): constructing a grid never fails. The constructor stores the
  rows and the two declared dimensions as given, whatever the shape of the rows.
\<close>

theorem Grid_init_never_fails:
  "Grid_init rows l d = Inr \<lparr>grid = rows, length' = l, depth = d\<rparr>"
  by (simp add: Grid_init_def)

text \<open>
  A one-row, one-cell grid declared two columns wide is not rectangular, and its
  construction succeeds.
\<close>

theorem Grid_init_shape_counterexample:
  "\<not> rectangular \<lparr>grid = [[''a'']], length' = 2, depth = 1\<rparr> \<and>
   Grid_init [[''a'']] 2 1 = Inr \<lparr>grid = [[''a'']], length' = 2, depth = 1\<rparr>"
  by (simp add: Grid_init_def rectangular_def)

section \<open>Diagonal lines\<close>

text \<open>
  C1: for every rectangular grid, \<open>diagonal_lines\<close> returns exactly the set of strings of
  the specification's algorithm: per offset below the width, both accumulators seeded
  with the cell of row 0 at that offset, the rows from 1 on appending under the two
  column guards, and every non-empty accumulator string added with its reverse.
\<close>

theorem diagonal_lines_follows_spec:
  "rectangular g \<Longrightarrow> diagonal_lines g = Inr (spec_diagonal_lines g)"
  by (rule diagonal_lines_rect)

theorem diagonal_lines_follows_spec_witness:
  "rectangular G22 \<and> diagonal_lines G22 = Inr (spec_diagonal_lines G22) \<and>
   spec_diagonal_lines G22 = {''ad'', ''da'', ''a'', ''b'', ''bc'', ''cb''}"
proof -
  have r: "rectangular G22" by code_simp
  have "spec_diagonal_lines G22 = {''ad'', ''da'', ''a'', ''b'', ''bc'', ''cb''}" by code_simp
  with r diagonal_lines_follows_spec[OF r] show ?thesis by simp
qed

text \<open>
  C8: for every rectangular grid, the result of \<open>diagonal_lines\<close> is a finite set, so that
  no string occurs twice in it or in any iteration of it, and it contains the reverse
  of each of its members.
\<close>

theorem diagonal_lines_closed_under_reversal:
  "rectangular g \<Longrightarrow>
   \<exists>D. diagonal_lines g = Inr D \<and> finite D \<and> (\<forall>s\<in>D. rev s \<in> D) \<and>
       (\<forall>ds. iterates D ds \<longrightarrow> distinct ds)"
  by (simp add: diagonal_lines_rect finite_spec_diagonal_lines spec_diagonal_lines_rev
      iterates_def)

theorem diagonal_lines_closed_under_reversal_witness:
  "rectangular Gcat \<and>
   (\<exists>D. diagonal_lines Gcat = Inr D \<and> finite D \<and> (\<forall>s\<in>D. rev s \<in> D) \<and>
       (\<forall>ds. iterates D ds \<longrightarrow> distinct ds))"
proof -
  have r: "rectangular Gcat" by code_simp
  with diagonal_lines_closed_under_reversal[OF r] show ?thesis by simp
qed

text \<open>
  C10: on a rectangular grid every cell access of \<open>diagonal_lines\<close> and of
  \<open>vertical_lines\<close> is within bounds: both return a value and never raise
  \<open>IndexError\<close>, and the unguarded seed access at row 0 and column \<open>offset\<close>, made for
  every offset below the width when the grid has a row, finds its cell.
\<close>

theorem lines_access_in_bounds:
  "rectangular g \<Longrightarrow>
   (\<exists>D. diagonal_lines g = Inr D) \<and> (\<exists>V. vertical_lines g = Inr V) \<and>
   (\<forall>offset. 0 \<le> offset \<and> offset < length' g \<and> 1 \<le> depth g \<longrightarrow>
      cell g 0 offset = Inr (at g 0 offset))"
  by (simp add: diagonal_lines_rect vertical_lines_rect cell_in_range)

theorem lines_access_in_bounds_witness:
  "rectangular G22 \<and>
   (\<exists>D. diagonal_lines G22 = Inr D) \<and> (\<exists>V. vertical_lines G22 = Inr V) \<and>
   cell G22 0 1 = Inr ''b''"
proof -
  have r: "rectangular G22" by code_simp
  have o: "0 \<le> (1::int) \<and> 1 < length' G22 \<and> 1 \<le> depth G22" by code_simp
  have "at G22 0 1 = ''b''" by code_simp
  with r o lines_access_in_bounds[OF r] show ?thesis by simp
qed

text \<open>
  The out-of-range branch is a real one: on a grid whose only row is shorter than the
  declared width, the seed access of the second offset raises.
\<close>

lemma diagonal_lines_ragged: "diagonal_lines ragged_grid = Inl IndexError"
  by code_simp

section \<open>Horizontal lines\<close>

text \<open>
  C7: for every rectangular grid of height \<open>h\<close>, \<open>horizontal_lines\<close> has exactly \<open>2h\<close>
  entries; for every row index \<open>i\<close>, entry \<open>2i\<close> is row \<open>i\<close> read left to right and entry
  \<open>2i + 1\<close> is the reverse of entry \<open>2i\<close>.
\<close>

theorem horizontal_lines_pairs:
  "rectangular g \<Longrightarrow>
   int (length (horizontal_lines g)) = 2 * depth g \<and>
   (\<forall>i < length (grid g).
      horizontal_lines g ! (2 * i) = join [] (grid g ! i) \<and>
      horizontal_lines g ! (2 * i + 1) = rev (horizontal_lines g ! (2 * i)))"
proof -
  assume "rectangular g"
  then have "int (length (horizontal_lines g)) = 2 * depth g"
    by (simp add: horizontal_lines_eq length_pairs rectangular_def)
  moreover have "horizontal_lines g ! (2 * i) = join [] (grid g ! i) \<and>
      horizontal_lines g ! (2 * i + 1) = rev (horizontal_lines g ! (2 * i))"
    if "i < length (grid g)" for i
    using nth_pairs[OF that, of concat "\<lambda>row. rev (concat row)"]
    by (simp add: horizontal_lines_eq)
  ultimately show ?thesis by blast
qed

theorem horizontal_lines_pairs_witness:
  "rectangular G22 \<and>
   int (length (horizontal_lines G22)) = 2 * depth G22 \<and>
   horizontal_lines G22 ! (2 * 1) = join [] (grid G22 ! 1) \<and>
   horizontal_lines G22 ! (2 * 1 + 1) = rev (horizontal_lines G22 ! (2 * 1)) \<and>
   horizontal_lines G22 = [''ab'', ''ba'', ''cd'', ''dc'']"
proof -
  have r: "rectangular G22" by code_simp
  have i: "1 < length (grid G22)" by code_simp
  have v: "horizontal_lines G22 = [''ab'', ''ba'', ''cd'', ''dc'']" by code_simp
  from horizontal_lines_pairs[OF r]
  have len: "int (length (horizontal_lines G22)) = 2 * depth G22"
    and rows: "\<forall>i < length (grid G22).
      horizontal_lines G22 ! (2 * i) = join [] (grid G22 ! i) \<and>
      horizontal_lines G22 ! (2 * i + 1) = rev (horizontal_lines G22 ! (2 * i))"
    by blast+
  from rows i have
    "horizontal_lines G22 ! (2 * 1) = join [] (grid G22 ! 1) \<and>
     horizontal_lines G22 ! (2 * 1 + 1) = rev (horizontal_lines G22 ! (2 * 1))"
    by blast
  with r len v show ?thesis by blast
qed

section \<open>Line lengths\<close>

text \<open>
  C9 (as the code has it): for every rectangular grid of single-character cells, every
  string of
  \<open>vertical_lines\<close>, of \<open>horizontal_lines\<close> and of \<open>diagonal_lines\<close>, and so every
  string of \<open>lines\<close>, has length at most \<open>max_size = max(length, depth)\<close>; hence no
  word longer than \<open>max_size\<close> is a contiguous part of a line.
\<close>

theorem lines_within_max_size:
  assumes "rectangular g" "single_chars g"
  shows "\<exists>V D. vertical_lines g = Inr V \<and> diagonal_lines g = Inr D \<and>
           (\<forall>l \<in> set V \<union> set (horizontal_lines g) \<union> D. int (length l) \<le> max_size g) \<and>
           (\<forall>ds. iterates D ds \<longrightarrow>
              (\<exists>L. lines g ds = Inr L \<and>
                   (\<forall>l\<in>set L. int (length l) \<le> max_size g \<and>
                      (\<forall>w. sublist w l \<longrightarrow> int (length w) \<le> max_size g))))"
proof -
  obtain V where V: "vertical_lines g = Inr V" using assms(1) by (simp add: vertical_lines_rect)
  let ?D = "spec_diagonal_lines g"
  have D: "diagonal_lines g = Inr ?D" using assms(1) by (rule diagonal_lines_rect)
  have L: "lines g ds = Inr (V @ horizontal_lines g @ ds)" for ds
    using V D by (simp add: lines_def)
  have 1: "\<forall>l \<in> set V \<union> set (horizontal_lines g) \<union> ?D. int (length l) \<le> max_size g"
    using vertical_fit[OF assms V] horizontal_fit[OF assms] spec_diagonal_fit[OF assms]
    by (auto simp: fits_def)
  have 2: "int (length l) \<le> max_size g \<and> (\<forall>w. sublist w l \<longrightarrow> int (length w) \<le> max_size g)"
    if "iterates ?D ds" "l \<in> set (V @ horizontal_lines g @ ds)" for ds l
  proof -
    have "fits g l" using lines_fit[OF assms D that(1) L that(2)] .
    then show ?thesis using sublist_fits(1)[of g l] by (simp add: fits_def)
  qed
  show ?thesis using V D 1 2 L by blast
qed

theorem lines_within_max_size_witness:
  "rectangular G22 \<and> single_chars G22 \<and>
   (\<exists>V D. vertical_lines G22 = Inr V \<and> diagonal_lines G22 = Inr D \<and>
           (\<forall>l \<in> set V \<union> set (horizontal_lines G22) \<union> D. int (length l) \<le> max_size G22) \<and>
           (\<forall>ds. iterates D ds \<longrightarrow>
              (\<exists>L. lines G22 ds = Inr L \<and>
                   (\<forall>l\<in>set L. int (length l) \<le> max_size G22 \<and>
                      (\<forall>w. sublist w l \<longrightarrow> int (length w) \<le> max_size G22)))))"
proof -
  have r: "rectangular G22" by code_simp
  have s: "single_chars G22" by code_simp
  from r s lines_within_max_size[OF r s] show ?thesis by simp
qed

text \<open>
  A cell is a Python string of any length, and a line joins cells: the one-cell grid
  with the cell \<open>ab\<close> is rectangular with \<open>max_size\<close> 1, and its horizontal lines have
  two characters.
\<close>

theorem lines_wide_cell_counterexample:
  "rectangular wide_grid \<and> max_size wide_grid = 1 \<and>
   horizontal_lines wide_grid = [''ab'', ''ba''] \<and> length ''ab'' = 2"
  by code_simp

section \<open>Finder\<close>

text \<open>
  C6: for every grid with \<open>max_size < 1\<close> and every word source, \<open>find_words\<close> returns
  the empty list, whatever iterating the source would give: a source that raises when
  iterated is never iterated.
\<close>

theorem find_words_degenerate_grid:
  "max_size g < 1 \<Longrightarrow> find_words files g ds file_path = Inr []"
  by (simp add: find_words_def Let_def)

theorem find_words_degenerate_grid_witness:
  "max_size empty_grid < 1 \<and>
   read_words directory_only ''words.txt'' = Raise FileNotFoundError \<and>
   find_words directory_only empty_grid [] ''words.txt'' = Inr []"
proof -
  have m: "max_size empty_grid < 1" by code_simp
  have "read_words directory_only ''words.txt'' = Raise FileNotFoundError" by code_simp
  with m find_words_degenerate_grid[OF m, of directory_only "[]" "''words.txt''"]
  show ?thesis by simp
qed

text \<open>
  C5 (as the code has it): for every rectangular grid with \<open>max_size\<close> at least 1 and every
  path that does not name a readable plain file, \<open>find_words\<close> fails and returns no
  words: with \<open>FileNotFoundError\<close> when the path names nothing or something that is not
  a plain file, with the error of \<open>open\<close> when the file exists and cannot be read.
\<close>

theorem find_words_source_unavailable:
  assumes "rectangular g" "1 \<le> max_size g" "\<forall>ls. files p \<noteq> Plain ls"
  shows "find_words files g ds p =
         Inl (if files p = Unreadable then PermissionError else FileNotFoundError)"
  using assms(2) read_words_unavailable[of files p] assms(3)
  by (simp add: find_words_def lines_rect[OF assms(1)])

theorem find_words_source_unavailable_witness:
  "rectangular G22 \<and> 1 \<le> max_size G22 \<and> (\<forall>ls. no_files ''words.txt'' \<noteq> Plain ls) \<and>
   find_words no_files G22 [''a''] ''words.txt'' = Inl FileNotFoundError"
proof -
  have r: "rectangular G22" by code_simp
  have m: "1 \<le> max_size G22" by code_simp
  have f: "\<forall>ls. no_files ''words.txt'' \<noteq> Plain ls" by (simp add: no_files_def)
  from r m f
    find_words_source_unavailable[where g = G22 and files = no_files and p = "''words.txt''"
      and ds = "[''a'']", OF r m f]
  show ?thesis
    by (simp add: no_files_def)
qed

text \<open>
  With a grid of no rows and no columns the guard on \<open>max_size\<close> returns before the word
  generator is iterated, so the missing file goes unnoticed.
\<close>

theorem find_words_missing_source_counterexample:
  "no_files ''nowhere.txt'' = Missing \<and>
   find_words no_files empty_grid [] ''nowhere.txt'' = Inr []"
  by code_simp

text \<open>
  C2 (as the code has it): for every rectangular grid of single-character cells and
  every word source whose words are non-empty and free of the separator \<open>|\<close>,
  \<open>find_words\<close> returns exactly the source words that are a contiguous part of some
  line of \<open>lines\<close>, in the order of the source and with its duplicates.
\<close>

theorem find_words_exact:
  assumes "rectangular g" "single_chars g"
    and "diagonal_lines g = Inr D" "iterates D ds"
    and "files p = Plain ls"
    and "\<forall>w\<in>set (map strip ls). w \<noteq> [] \<and> CHR ''|'' \<notin> set w"
  shows "\<exists>L. lines g ds = Inr L \<and> find_words files g ds p = Inr (occurring L (map strip ls))"
proof (cases "max_size g < 1")
  case True
  then have "lines g ds = Inr []" using assms(1,3,4) by (intro no_lines_when_empty)
  moreover have "find_words files g ds p = Inr []" using True by (simp add: find_words_def)
  ultimately show ?thesis by (simp add: occurring_def)
next
  case False
  let ?ws = "map strip ls"
  obtain L where L: "lines g ds = Inr L" using assms(1) by (simp add: lines_rect)
  have words: "read_words files p = gen_of ?ws"
    using assms(5) by (simp add: read_words_def exists_path_def is_file_def yield_lines_gen)
  have nonempty: "\<forall>w\<in>set (filter (\<lambda>w. int (length w) \<le> max_size g) ?ws). w \<noteq> []"
    using assms(6) by auto
  have "find_words files g ds p =
        Inr (filter (\<lambda>w. str_in w (join ''|'' L))
              (filter (\<lambda>w. [hd w] \<in> letters g)
                (filter (\<lambda>w. int (length w) \<le> max_size g) ?ws)))"
    using False L
    by (simp add: find_words_def words filter_by_length_gen
        filter_by_letters_gen[OF nonempty] find_loop_gen del: set_filter)
  also have "filter (\<lambda>w. str_in w (join ''|'' L))
              (filter (\<lambda>w. [hd w] \<in> letters g)
                (filter (\<lambda>w. int (length w) \<le> max_size g) ?ws)) = occurring L ?ws"
  proof -
    have "(str_in w (join ''|'' L) \<and> [hd w] \<in> letters g \<and> int (length w) \<le> max_size g)
          = list_ex (sublist w) L" if "w \<in> set ?ws" for w
    proof -
      have w: "w \<noteq> []" "CHR ''|'' \<notin> set w" using that assms(6) by auto
      have iff: "str_in w (join ''|'' L) \<longleftrightarrow> (\<exists>l\<in>set L. sublist w l)"
        unfolding str_in_sublist by (rule sublist_join[OF w(2,1)])
      have "[hd w] \<in> letters g \<and> int (length w) \<le> max_size g" if "l \<in> set L" "sublist w l" for l
        using sublist_fits[OF lines_fit[OF assms(1-4) L that(1)] that(2)] w(1) by simp
      with iff show ?thesis by (auto simp: list_ex_iff)
    qed
    then show ?thesis
      unfolding occurring_def filter_filter by (intro filter_cong) auto
  qed
  finally show ?thesis using L by simp
qed

theorem find_words_exact_witness:
  "rectangular Gcat \<and> single_chars Gcat \<and>
   diagonal_lines Gcat = Inr {''c'', ''a'', ''t''} \<and>
   iterates {''c'', ''a'', ''t''} [''c'', ''a'', ''t''] \<and>
   words_file ''words.txt'' = Plain [''cat'' @ [CHR 0x0A], ''dog'' @ [CHR 0x0A], '' at''] \<and>
   map strip [''cat'' @ [CHR 0x0A], ''dog'' @ [CHR 0x0A], '' at''] = [''cat'', ''dog'', ''at''] \<and>
   find_words words_file Gcat [''c'', ''a'', ''t''] ''words.txt'' = Inr [''cat'', ''at'']"
proof -
  let ?ls = "[''cat'' @ [CHR 0x0A], ''dog'' @ [CHR 0x0A], '' at'']"
  let ?ds = "[''c'', ''a'', ''t'']"
  have h1: "rectangular Gcat" by code_simp
  have h2: "single_chars Gcat" by code_simp
  have h3: "diagonal_lines Gcat = Inr {''c'', ''a'', ''t''}" by code_simp
  have h4: "iterates {''c'', ''a'', ''t''} ?ds" by code_simp
  have h5: "words_file ''words.txt'' = Plain ?ls" by (simp add: words_file_def)
  have h6: "\<forall>w\<in>set (map strip ?ls). w \<noteq> [] \<and> CHR ''|'' \<notin> set w" by code_simp
  from find_words_exact[of Gcat "{''c'', ''a'', ''t''}" ?ds words_file "''words.txt''" ?ls, OF h1 h2 h3 h4 h5 h6]
  obtain L where
    L: "lines Gcat ?ds = Inr L"
       "find_words words_file Gcat ?ds ''words.txt'' = Inr (occurring L (map strip ?ls))"
    by blast
  have "lines Gcat ?ds =
        Inr [''c'', ''c'', ''a'', ''a'', ''t'', ''t'', ''cat'', ''tac'', ''c'', ''a'', ''t'']"
    by code_simp
  with L(1) have "L = [''c'', ''c'', ''a'', ''a'', ''t'', ''t'', ''cat'', ''tac'', ''c'', ''a'', ''t'']"
    by simp
  moreover have "occurring [''c'', ''c'', ''a'', ''a'', ''t'', ''t'', ''cat'', ''tac'', ''c'', ''a'', ''t'']
                   (map strip ?ls) = [''cat'', ''at'']"
    by code_simp
  moreover have "map strip ?ls = [''cat'', ''dog'', ''at'']" by code_simp
  ultimately show ?thesis using h1 h2 h3 h4 h5 L(2) by simp
qed

text \<open>
  A word with the separator in it matches across the boundary of two lines: \<open>a|a\<close> is
  found in the corpus of the one-row grid \<open>c a t\<close> and is part of none of its lines.
\<close>

theorem find_words_separator_counterexample:
  "find_words pipe_file Gcat [''c'', ''a'', ''t''] ''words.txt'' = Inr [''a|a''] \<and>
   lines Gcat [''c'', ''a'', ''t''] =
     Inr [''c'', ''c'', ''a'', ''a'', ''t'', ''t'', ''cat'', ''tac'', ''c'', ''a'', ''t''] \<and>
   occurring [''c'', ''c'', ''a'', ''a'', ''t'', ''t'', ''cat'', ''tac'', ''c'', ''a'', ''t'']
     [''a|a''] = []"
  by code_simp

text \<open>
  The two hypotheses on the grid are needed as well. With a cell of two characters the
  length filter drops a word that is a line; with a row shorter than the declared width
  the lines cannot be computed and the search raises.
\<close>

lemma find_words_wide_cell:
  "find_words wide_file wide_grid [''ab'', ''ba''] ''words.txt'' = Inr [] \<and>
   lines wide_grid [''ab'', ''ba''] = Inr [''ab'', ''ba'', ''ab'', ''ba'', ''ab'', ''ba''] \<and>
   occurring [''ab'', ''ba'', ''ab'', ''ba'', ''ab'', ''ba''] [''ab''] = [''ab'']"
  by code_simp

lemma find_words_ragged: "find_words words_file ragged_grid [''a''] ''words.txt'' = Inl IndexError"
  by code_simp

text \<open>
  C4: a zero-length word from the source must not make the filters fault with an
  out-of-range access. In the code it does: \<open>filter_by_letters\<close> subscripts the word at 0,
  so the empty word raises \<open>IndexError\<close>, and a dictionary with a blank line makes the
  whole search fail with it.
\<close>

theorem filter_by_letters_empty_word_faults:
  "filter_by_letters (filter_by_length (Yield [] Stop) 3) {''c'', ''a'', ''t''} = Raise IndexError \<and>
   find_words blank_line_file Gcat [''c'', ''a'', ''t''] ''words.txt'' = Inl IndexError"
  by code_simp

end
